theory Spec2Isabelle
  imports Main "HOL-Library.Sublist"
begin

section \<open>Strings, paths and the codec\<close>

text \<open>
  The program under study is \<^verbatim>\<open>gemini_cli.py\<close>: it collects the text of files and
  directories, formats each file as a labelled block and appends the blocks to a question.

  A Python \<^verbatim>\<open>str\<close> is represented by its UTF-8 encoding, a \<^typ>\<open>string\<close> whose
  characters are bytes. Concatenation, equality, membership in a list and slicing at an ASCII
  separator commute with that representation, \<^verbatim>\<open>s.encode('utf-8')\<close> is the identity and
  \<^verbatim>\<open>len(s.encode('utf-8'))\<close> is \<^term>\<open>length\<close>. The bytes of a file are a
  \<^typ>\<open>string\<close> as well.
\<close>

abbreviation NUL :: char where "NUL \<equiv> CHR 0x00"
abbreviation LF :: char where "LF \<equiv> CHR 0x0A"
abbreviation CR :: char where "CR \<equiv> CHR 0x0D"
abbreviation DQ :: char where "DQ \<equiv> CHR 0x22"

text \<open>\<^verbatim>\<open>s.rfind(c)\<close>: the last index of \<open>c\<close> in \<open>s\<close>, or \<open>-1\<close>.\<close>

fun rfind :: "string \<Rightarrow> char \<Rightarrow> int" where
  "rfind [] c = - 1"
| "rfind (x # xs) c =
     (let r = rfind xs c in if 0 \<le> r then r + 1 else if x = c then 0 else - 1)"

text \<open>
  \<^verbatim>\<open>os.path\<close> is \<^verbatim>\<open>posixpath\<close>.
  \<^verbatim>\<open>basename(p)\<close> is \<^verbatim>\<open>p[p.rfind('/') + 1:]\<close>.
\<close>

definition basename :: "string \<Rightarrow> string" where
  "basename p = drop (nat (rfind p CHR ''/'' + 1)) p"

text \<open>
  \<^verbatim>\<open>splitext(p)\<close> splits at the last dot that follows the last separator, unless only
  dots stand between that separator and the dot (the library skips all leading dots of the
  name): \<^verbatim>\<open>splitext('.env')\<close> is \<^verbatim>\<open>('.env', '')\<close>.
\<close>

definition splitext :: "string \<Rightarrow> string \<times> string" where
  "splitext p =
     (let sepIndex = rfind p CHR ''/'';
          dotIndex = rfind p CHR ''.''
      in if sepIndex < dotIndex
            \<and> dropWhile (\<lambda>c. c = CHR ''.'') (drop (nat (sepIndex + 1)) (take (nat dotIndex) p)) \<noteq> []
         then (take (nat dotIndex) p, drop (nat dotIndex) p)
         else (p, []))"

text \<open>\<^verbatim>\<open>os.path.join(a, b)\<close>.\<close>

definition path_join :: "string \<Rightarrow> string \<Rightarrow> string" where
  "path_join a b =
     (if take 1 b = ''/'' then b
      else if a = [] \<or> last a = CHR ''/'' then a @ b
      else a @ ''/'' @ b)"

text \<open>\<^verbatim>\<open>sep.join(xs)\<close>.\<close>

fun str_join :: "string \<Rightarrow> string list \<Rightarrow> string" where
  "str_join sep [] = []"
| "str_join sep [x] = x"
| "str_join sep (x # y # ys) = x @ sep @ str_join sep (y # ys)"

text \<open>
  The strict UTF-8 decoder accepts exactly the well-formed sequences: no overlong form, no
  surrogate, nothing above \<open>U+10FFFF\<close>. \<open>utf8_tail b\<close> gives, for a lead byte \<open>b\<close>, the range
  of the second byte and the number of continuation bytes after it.
\<close>

definition utf8_tail :: "nat \<Rightarrow> (nat \<times> nat \<times> nat) option" where
  "utf8_tail b =
     (if 0xC2 \<le> b \<and> b \<le> 0xDF then Some (0x80, 0xBF, 0)
      else if b = 0xE0 then Some (0xA0, 0xBF, 1)
      else if 0xE1 \<le> b \<and> b \<le> 0xEC then Some (0x80, 0xBF, 1)
      else if b = 0xED then Some (0x80, 0x9F, 1)
      else if 0xEE \<le> b \<and> b \<le> 0xEF then Some (0x80, 0xBF, 1)
      else if b = 0xF0 then Some (0x90, 0xBF, 2)
      else if 0xF1 \<le> b \<and> b \<le> 0xF3 then Some (0x80, 0xBF, 2)
      else if b = 0xF4 then Some (0x80, 0x8F, 2)
      else None)"

definition continuation :: "nat \<Rightarrow> bool" where
  "continuation c = (0x80 \<le> c \<and> c \<le> 0xBF)"

function utf8_ok :: "nat list \<Rightarrow> bool" where
  "utf8_ok [] = True"
| "utf8_ok (b # bs) =
     (if b < 0x80 then utf8_ok bs
      else case utf8_tail b of
             None \<Rightarrow> False
           | Some (lo, hi, n) \<Rightarrow>
               (case bs of
                  [] \<Rightarrow> False
                | c # r \<Rightarrow>
                    lo \<le> c \<and> c \<le> hi \<and> n \<le> length r
                    \<and> filter continuation (take n r) = take n r
                    \<and> utf8_ok (drop n r)))"
  by pat_completeness auto
termination
  by (relation "measure length") auto

text \<open>
  A file opened in text mode has its line ends translated (\<^verbatim>\<open>newline=None\<close>):
  \<^verbatim>\<open>'\r\n'\<close> and a lone \<^verbatim>\<open>'\r'\<close> are read as \<^verbatim>\<open>'\n'\<close>.
\<close>

fun universal_newlines :: "string \<Rightarrow> string" where
  "universal_newlines [] = []"
| "universal_newlines [x] = (if x = CR then [LF] else [x])"
| "universal_newlines (x # y # ys) =
     (if x = CR \<and> y = LF then LF # universal_newlines ys
      else if x = CR then LF # universal_newlines (y # ys)
      else x # universal_newlines (y # ys))"

section \<open>The platform\<close>

text \<open>
  What the run observes of the platform it runs on. Of the file system:
  \<^verbatim>\<open>os.path.isfile\<close>, \<^verbatim>\<open>os.path.isdir\<close>, the triples \<open>(root, dirs, files)\<close> that
  \<^verbatim>\<open>os.walk\<close> yields for a root, in the order it yields them, and what opening and
  reading a path gives: the bytes of the file, or the message of the exception raised. Of
  the interpreter: \<^verbatim>\<open>str.lower\<close>, whose mapping of the cased letters is the table of the
  interpreter's Unicode database. The table is no part of the program, so \<open>lower\<close> is a
  component of the platform and every statement below holds for every such function. A
  platform is written \<open>fs\<close>, after its main part.
\<close>

record platform =
  isfile :: "string \<Rightarrow> bool"
  isdir :: "string \<Rightarrow> bool"
  walk :: "string \<Rightarrow> (string \<times> string list \<times> string list) list"
  read_bytes :: "string \<Rightarrow> string + string"
  lower :: "string \<Rightarrow> string"

datatype error = UnicodeDecodeError | OSError string

text \<open>\<^verbatim>\<open>open(file_path, 'r', encoding='utf-8').read()\<close>\<close>

definition read_text :: "platform \<Rightarrow> string \<Rightarrow> error + string" where
  "read_text fs file_path =
     (case read_bytes fs file_path of
        Inl e \<Rightarrow> Inl (OSError e)
      | Inr bytes \<Rightarrow>
          if utf8_ok (map of_char bytes) then Inr (universal_newlines bytes)
          else Inl UnicodeDecodeError)"

section \<open>Formatting and binary detection\<close>

definition format_file_content :: "string \<Rightarrow> string \<Rightarrow> string" where
  "format_file_content file_path content =
     concat [''File: '', basename file_path, [LF, DQ, DQ, DQ, LF], content, [LF, DQ, DQ, DQ]]"

definition is_binary_file :: "platform \<Rightarrow> string \<Rightarrow> bool" where
  "is_binary_file fs file_path =
     (case read_bytes fs file_path of
        Inl e \<Rightarrow> True
      | Inr bytes \<Rightarrow> (let chunk = take 1024 bytes in NUL \<in> set chunk))"

section \<open>The collector\<close>

text \<open>
  The three variables that \<^verbatim>\<open>get_files_from_paths\<close> shares with its nested functions, and
  the lines printed so far.
\<close>

record collector =
  formatted_contents :: "string list"
  included_files :: "string list"
  total_bytes :: int
  printed :: "string list"

definition print :: "string \<Rightarrow> collector \<Rightarrow> collector" where
  "print line st = st\<lparr>printed := printed st @ [line]\<rparr>"

text \<open>
  \<open>exclude_exts\<close> is the list already lower-cased by the enclosing function, and
  \<open>lower fs\<close> is \<^verbatim>\<open>str.lower\<close>.
\<close>

definition should_exclude :: "platform \<Rightarrow> string list \<Rightarrow> string list \<Rightarrow> string \<Rightarrow> bool" where
  "should_exclude fs exclude_exts exclude_names file_path =
     (let file_name = basename file_path;
          file_ext = lower fs (snd (splitext file_name))
      in file_ext \<in> set exclude_exts \<or> file_name \<in> set exclude_names)"

text \<open>
  \<^verbatim>\<open>max_bytes and (total_bytes + content_size > max_bytes)\<close>: \<^verbatim>\<open>None\<close> and \<^verbatim>\<open>0\<close> are
  both false in Python.
\<close>

definition exceeds :: "int option \<Rightarrow> int \<Rightarrow> int \<Rightarrow> bool" where
  "exceeds max_bytes running content_size =
     (case max_bytes of
        None \<Rightarrow> False
      | Some m \<Rightarrow> m \<noteq> 0 \<and> m < running + content_size)"

definition process_file ::
  "platform \<Rightarrow> string list \<Rightarrow> string list \<Rightarrow> int option \<Rightarrow> string \<Rightarrow> collector \<Rightarrow> collector" where
  "process_file fs exclude_exts exclude_names max_bytes file_path st =
     (if should_exclude fs exclude_exts exclude_names file_path then st
      else if is_binary_file fs file_path
        then print (''Warning: Skipping binary file: '' @ file_path) st
      else case read_text fs file_path of
          Inl UnicodeDecodeError \<Rightarrow>
            print (''Warning: Skipping file with encoding issues: '' @ file_path) st
        | Inl (OSError e) \<Rightarrow>
            print (''Error reading file '' @ file_path @ '': '' @ e) st
        | Inr content \<Rightarrow>
            (let content_size = int (length content)
             in if exceeds max_bytes (total_bytes st) content_size
                then print (''Warning: Skipping '' @ file_path
                            @ '' as it would exceed the max bytes limit'') st
                else st\<lparr>total_bytes := total_bytes st + content_size,
                        formatted_contents :=
                          formatted_contents st @ [format_file_content file_path content],
                        included_files := included_files st @ [file_path]\<rparr>))"

text \<open>The loop over the explicit file arguments.\<close>

fun files_loop ::
  "platform \<Rightarrow> string list \<Rightarrow> string list \<Rightarrow> int option \<Rightarrow> string list \<Rightarrow> collector \<Rightarrow> collector" where
  "files_loop fs ee en mb [] st = st"
| "files_loop fs ee en mb (file_path_arg # rest) st =
     files_loop fs ee en mb rest
       (if \<not> isfile fs file_path_arg
        then print (''Warning: File not found or is not a regular file: '' @ file_path_arg) st
        else process_file fs ee en mb file_path_arg st)"

text \<open>The loops over the files of one directory, the triples of one walk, and the roots.\<close>

fun names_loop ::
  "platform \<Rightarrow> string list \<Rightarrow> string list \<Rightarrow> int option \<Rightarrow> string \<Rightarrow> string list \<Rightarrow> collector \<Rightarrow> collector" where
  "names_loop fs ee en mb root [] st = st"
| "names_loop fs ee en mb root (file_name # rest) st =
     names_loop fs ee en mb root rest (process_file fs ee en mb (path_join root file_name) st)"

fun walk_loop ::
  "platform \<Rightarrow> string list \<Rightarrow> string list \<Rightarrow> int option
     \<Rightarrow> (string \<times> string list \<times> string list) list \<Rightarrow> collector \<Rightarrow> collector" where
  "walk_loop fs ee en mb [] st = st"
| "walk_loop fs ee en mb ((root, dirs, files_in_dir) # rest) st =
     walk_loop fs ee en mb rest (names_loop fs ee en mb root files_in_dir st)"

fun dirs_loop ::
  "platform \<Rightarrow> string list \<Rightarrow> string list \<Rightarrow> int option \<Rightarrow> string list \<Rightarrow> collector \<Rightarrow> collector" where
  "dirs_loop fs ee en mb [] st = st"
| "dirs_loop fs ee en mb (dir_path # rest) st =
     dirs_loop fs ee en mb rest
       (if \<not> isdir fs dir_path
        then print (''Warning: Directory not found: '' @ dir_path) st
        else walk_loop fs ee en mb (walk fs dir_path) st)"

text \<open>
  The list arguments may be \<^verbatim>\<open>None\<close>; \<^verbatim>\<open>x or []\<close> and \<^verbatim>\<open>if x:\<close> treat \<^verbatim>\<open>None\<close> as
  the empty list.
\<close>

definition or_empty :: "'a list option \<Rightarrow> 'a list" where
  "or_empty x = (case x of None \<Rightarrow> [] | Some xs \<Rightarrow> xs)"

definition truthy :: "'a list option \<Rightarrow> bool" where
  "truthy x = (case x of None \<Rightarrow> False | Some xs \<Rightarrow> xs \<noteq> [])"

definition start :: collector where
  "start = \<lparr>formatted_contents = [], included_files = [], total_bytes = 0, printed = []\<rparr>"

text \<open>
  The body of \<^verbatim>\<open>get_files_from_paths\<close>, returning the whole state; the function itself
  returns two of its components.
\<close>

definition collect ::
  "platform \<Rightarrow> string list option \<Rightarrow> string list option \<Rightarrow> string list option
     \<Rightarrow> string list option \<Rightarrow> int option \<Rightarrow> collector" where
  "collect fs file_paths dir_paths exclude_exts exclude_names max_bytes =
     (let ee = map (lower fs) (or_empty exclude_exts);
          en = or_empty exclude_names;
          st1 = (if truthy file_paths
                 then files_loop fs ee en max_bytes (or_empty file_paths) start else start);
          st2 = (if truthy dir_paths
                 then dirs_loop fs ee en max_bytes (or_empty dir_paths) st1 else st1)
      in st2)"

definition get_files_from_paths ::
  "platform \<Rightarrow> string list option \<Rightarrow> string list option \<Rightarrow> string list option
     \<Rightarrow> string list option \<Rightarrow> int option \<Rightarrow> string list \<times> string list" where
  "get_files_from_paths fs file_paths dir_paths exclude_exts exclude_names max_bytes =
     (let st = collect fs file_paths dir_paths exclude_exts exclude_names max_bytes
      in (formatted_contents st, included_files st))"

section \<open>The prompt and the dry-run summary\<close>

definition final_prompt :: "string \<Rightarrow> string list \<Rightarrow> string" where
  "final_prompt question file_contents_formatted =
     (let prompt_parts = [question];
          prompt_parts = (if file_contents_formatted \<noteq> []
                          then prompt_parts @ [[LF, LF] @ str_join [LF, LF] file_contents_formatted]
                          else prompt_parts)
      in concat prompt_parts)"

text \<open>The prompt that \<^verbatim>\<open>main\<close> builds from its arguments.\<close>

definition main_prompt ::
  "platform \<Rightarrow> string \<Rightarrow> string list \<Rightarrow> string list \<Rightarrow> string list \<Rightarrow> string list
     \<Rightarrow> int option \<Rightarrow> string" where
  "main_prompt fs question file dir exclude_ext exclude_name max_bytes =
     final_prompt question
       (fst (get_files_from_paths fs (Some file) (Some dir) (Some exclude_ext)
               (Some exclude_name) max_bytes))"

text \<open>
  The total of the dry-run summary reads every included file again; an exception raised by
  one of the reads leaves \<^verbatim>\<open>main\<close>.
\<close>

fun sum_sizes :: "platform \<Rightarrow> int \<Rightarrow> string list \<Rightarrow> error + int" where
  "sum_sizes fs acc [] = Inr acc"
| "sum_sizes fs acc (f # rest) =
     (case read_text fs f of
        Inl e \<Rightarrow> Inl e
      | Inr content \<Rightarrow> sum_sizes fs (acc + int (length content)) rest)"

definition summary_total :: "platform \<Rightarrow> string list \<Rightarrow> error + int" where
  "summary_total fs included = (if included \<noteq> [] then sum_sizes fs 0 included else Inr 0)"

section \<open>The run as a sequence of steps\<close>

text \<open>
  Which paths are processed, and in which order, does not depend on the collector: the loops
  of \<^verbatim>\<open>get_files_from_paths\<close> perform a fixed sequence of steps, each either one call
  of \<^verbatim>\<open>process_file\<close> or one printed warning. \<open>schedule\<close> is that sequence and
  \<open>run\<close> performs it; \<open>collect_run\<close> below shows that this is what the loops do. The
  state after the first \<open>n\<close> steps is \<open>run \<dots> (take n (schedule \<dots>)) start\<close>.
\<close>

datatype action = Process string | Print string

definition exec ::
  "platform \<Rightarrow> string list \<Rightarrow> string list \<Rightarrow> int option \<Rightarrow> collector \<Rightarrow> action \<Rightarrow> collector" where
  "exec fs ee en mb st a =
     (case a of Process file_path \<Rightarrow> process_file fs ee en mb file_path st
              | Print line \<Rightarrow> print line st)"

definition run ::
  "platform \<Rightarrow> string list \<Rightarrow> string list \<Rightarrow> int option \<Rightarrow> action list \<Rightarrow> collector \<Rightarrow> collector" where
  "run fs ee en mb as st = foldl (exec fs ee en mb) st as"

definition file_action :: "platform \<Rightarrow> string \<Rightarrow> action" where
  "file_action fs p =
     (if \<not> isfile fs p
      then Print (''Warning: File not found or is not a regular file: '' @ p)
      else Process p)"

definition walk_actions :: "(string \<times> string list \<times> string list) list \<Rightarrow> action list" where
  "walk_actions triples =
     concat (map (\<lambda>(root, dirs, files_in_dir). map (\<lambda>f. Process (path_join root f)) files_in_dir) triples)"

definition dir_actions :: "platform \<Rightarrow> string \<Rightarrow> action list" where
  "dir_actions fs d =
     (if \<not> isdir fs d then [Print (''Warning: Directory not found: '' @ d)]
      else walk_actions (walk fs d))"

definition schedule :: "platform \<Rightarrow> string list option \<Rightarrow> string list option \<Rightarrow> action list" where
  "schedule fs file_paths dir_paths =
     map (file_action fs) (or_empty file_paths) @ concat (map (dir_actions fs) (or_empty dir_paths))"

fun processed :: "action list \<Rightarrow> string list" where
  "processed [] = []"
| "processed (Process p # as) = p # processed as"
| "processed (Print l # as) = processed as"

definition candidates :: "platform \<Rightarrow> string list option \<Rightarrow> string list option \<Rightarrow> string list" where
  "candidates fs file_paths dir_paths = processed (schedule fs file_paths dir_paths)"

section \<open>Notions used in the statements\<close>

text \<open>
  For a path that is read without error, its decoded content, its block and its encoded size;
  \<open>passes\<close> says that a path gets through the exclusion check, the binary probe and the
  decoding; \<open>same_result\<close> says that a step left the result and the running total alone.
\<close>

definition content_of :: "platform \<Rightarrow> string \<Rightarrow> string" where
  "content_of fs file_path = (case read_text fs file_path of Inl e \<Rightarrow> [] | Inr content \<Rightarrow> content)"

definition block_of :: "platform \<Rightarrow> string \<Rightarrow> string" where
  "block_of fs file_path = format_file_content file_path (content_of fs file_path)"

definition size_of :: "platform \<Rightarrow> string \<Rightarrow> int" where
  "size_of fs file_path = int (length (content_of fs file_path))"

definition passes :: "platform \<Rightarrow> string list \<Rightarrow> string list \<Rightarrow> string \<Rightarrow> bool" where
  "passes fs ee en file_path =
     (\<not> should_exclude fs ee en file_path \<and> \<not> is_binary_file fs file_path
      \<and> \<not> isl (read_text fs file_path))"

definition same_result :: "collector \<Rightarrow> collector \<Rightarrow> bool" where
  "same_result st st' =
     (formatted_contents st' = formatted_contents st \<and> included_files st' = included_files st
      \<and> total_bytes st' = total_bytes st)"

text \<open>What holds of the collector after any number of steps from the start.\<close>

definition consistent :: "platform \<Rightarrow> string list \<Rightarrow> string list \<Rightarrow> collector \<Rightarrow> bool" where
  "consistent fs ee en st =
     (formatted_contents st = map (block_of fs) (included_files st)
      \<and> total_bytes st = sum_list (map (size_of fs) (included_files st))
      \<and> filter (passes fs ee en) (included_files st) = included_files st)"


section \<open>Example platforms\<close>

text \<open>
  The examples use ASCII names and entries only. On an ASCII string \<^verbatim>\<open>str.lower\<close> is the
  mapping of the letters \<^verbatim>\<open>A\<close> to \<^verbatim>\<open>Z\<close>, whatever the Unicode database of the
  interpreter; \<open>ascii_lower\<close> is that mapping and serves the example platforms.
\<close>

definition ascii_lower_char :: "char \<Rightarrow> char" where
  "ascii_lower_char c =
     (case map_of (zip ''ABCDEFGHIJKLMNOPQRSTUVWXYZ'' ''abcdefghijklmnopqrstuvwxyz'') c of
        None \<Rightarrow> c
      | Some l \<Rightarrow> l)"

definition ascii_lower :: "string \<Rightarrow> string" where
  "ascii_lower s = map ascii_lower_char s"

text \<open>
  A flat file system that holds the given regular files and no directory: a path is a file
  when it is listed, and reading any other path raises.
\<close>

definition files_fs :: "(string \<times> string) list \<Rightarrow> platform" where
  "files_fs files =
     \<lparr>isfile = (\<lambda>p. map_of files p \<noteq> None),
      isdir = (\<lambda>p. False),
      walk = (\<lambda>p. []),
      read_bytes = (\<lambda>p. case map_of files p of
                           None \<Rightarrow> Inl ''[Errno 2] No such file or directory''
                         | Some bytes \<Rightarrow> Inr bytes),
      lower = ascii_lower\<rparr>"

text \<open>A file system whose one regular file cannot be opened.\<close>

definition locked_fs :: platform where
  "locked_fs =
     \<lparr>isfile = (\<lambda>p. p = ''locked.txt''),
      isdir = (\<lambda>p. False),
      walk = (\<lambda>p. []),
      read_bytes = (\<lambda>p. Inl ''[Errno 13] Permission denied''),
      lower = ascii_lower\<rparr>"


section \<open>The extension as the specification words it\<close>

text \<open>
  The specification describes the extension of a name as the substring of the name from its
  last \<^verbatim>\<open>'.'\<close> inclusive, or empty if there is none. This definition follows those
  words, for comparison with \<open>splitext\<close>.
\<close>

definition spec_extension :: "string \<Rightarrow> string" where
  "spec_extension name =
     (if rfind name CHR ''.'' < 0 then [] else drop (nat (rfind name CHR ''.'')) name)"

section \<open>The loops perform the schedule\<close>

lemma run_Nil [simp]: "run fs ee en mb [] st = st"
  by (simp add: run_def)

lemma run_Cons [simp]: "run fs ee en mb (a # as) st = run fs ee en mb as (exec fs ee en mb st a)"
  by (simp add: run_def)

lemma run_append: "run fs ee en mb (as @ bs) st = run fs ee en mb bs (run fs ee en mb as st)"
  by (simp add: run_def)

lemma files_loop_run:
  "files_loop fs ee en mb ps st = run fs ee en mb (map (file_action fs) ps) st"
  by (induction ps arbitrary: st) (simp_all add: exec_def file_action_def)

lemma names_loop_run:
  "names_loop fs ee en mb root names st
     = run fs ee en mb (map (\<lambda>f. Process (path_join root f)) names) st"
  by (induction names arbitrary: st) (simp_all add: exec_def)

lemma walk_loop_run:
  "walk_loop fs ee en mb triples st = run fs ee en mb (walk_actions triples) st"
proof (induction triples arbitrary: st)
  case Nil
  show ?case by (simp add: walk_actions_def)
next
  case (Cons t triples)
  obtain root dirs names where t: "t = (root, dirs, names)"
    by (cases t) auto
  have "walk_actions (t # triples)
          = map (\<lambda>f. Process (path_join root f)) names @ walk_actions triples"
    by (simp add: walk_actions_def t)
  then show ?case
    by (simp add: t Cons.IH names_loop_run run_append)
qed

lemma dirs_loop_run:
  "dirs_loop fs ee en mb ds st = run fs ee en mb (concat (map (dir_actions fs) ds)) st"
proof (induction ds arbitrary: st)
  case Nil
  show ?case by simp
next
  case (Cons d ds)
  show ?case
    by (simp add: Cons.IH dir_actions_def walk_loop_run run_append exec_def)
qed

lemma truthy_or_empty: "truthy x \<longleftrightarrow> or_empty x \<noteq> []"
  by (simp add: truthy_def or_empty_def split: option.splits)

lemma collect_run:
  "collect fs file_paths dir_paths exclude_exts exclude_names max_bytes
     = run fs (map (lower fs) (or_empty exclude_exts)) (or_empty exclude_names) max_bytes
         (schedule fs file_paths dir_paths) start"
proof -
  have f: "(if truthy file_paths then files_loop fs ee en mb (or_empty file_paths) st else st)
             = run fs ee en mb (map (file_action fs) (or_empty file_paths)) st" for ee en mb st
    by (cases "or_empty file_paths = []") (simp_all add: truthy_or_empty files_loop_run)
  have d: "(if truthy dir_paths then dirs_loop fs ee en mb (or_empty dir_paths) st else st)
             = run fs ee en mb (concat (map (dir_actions fs) (or_empty dir_paths))) st" for ee en mb st
    by (cases "or_empty dir_paths = []") (simp_all add: truthy_or_empty dirs_loop_run)
  show ?thesis
    by (simp add: collect_def Let_def f d schedule_def run_append)
qed

section \<open>One call of the file processor\<close>

lemma same_result_refl [simp]: "same_result st st"
  by (simp add: same_result_def)

lemma same_result_print [simp]: "same_result st (print l st)"
  by (simp add: same_result_def print_def)

lemma content_of_Inr: "read_text fs p = Inr c \<Longrightarrow> content_of fs p = c"
  by (simp add: content_of_def)

lemma process_file_excluded:
  "should_exclude fs ee en p \<Longrightarrow> process_file fs ee en mb p st = st"
  by (simp add: process_file_def)

lemma process_file_binary:
  "\<not> should_exclude fs ee en p \<Longrightarrow> is_binary_file fs p \<Longrightarrow>
     process_file fs ee en mb p st = print (''Warning: Skipping binary file: '' @ p) st"
  by (simp add: process_file_def)

lemma process_file_over:
  "\<not> should_exclude fs ee en p \<Longrightarrow> \<not> is_binary_file fs p \<Longrightarrow> read_text fs p = Inr c \<Longrightarrow>
   exceeds mb (total_bytes st) (int (length c)) \<Longrightarrow>
     process_file fs ee en mb p st
       = print (''Warning: Skipping '' @ p @ '' as it would exceed the max bytes limit'') st"
  by (simp add: process_file_def)

lemma process_file_accepted:
  "\<not> should_exclude fs ee en p \<Longrightarrow> \<not> is_binary_file fs p \<Longrightarrow> read_text fs p = Inr c \<Longrightarrow>
   \<not> exceeds mb (total_bytes st) (int (length c)) \<Longrightarrow>
     process_file fs ee en mb p st
       = st\<lparr>total_bytes := total_bytes st + int (length c),
            formatted_contents := formatted_contents st @ [format_file_content p c],
            included_files := included_files st @ [p]\<rparr>"
  by (simp add: process_file_def)

lemma process_file_cases:
  "same_result st (process_file fs ee en mb p st)
   \<or> (passes fs ee en p \<and> \<not> exceeds mb (total_bytes st) (size_of fs p)
      \<and> formatted_contents (process_file fs ee en mb p st) = formatted_contents st @ [block_of fs p]
      \<and> included_files (process_file fs ee en mb p st) = included_files st @ [p]
      \<and> total_bytes (process_file fs ee en mb p st) = total_bytes st + size_of fs p)"
proof (cases "should_exclude fs ee en p \<or> is_binary_file fs p")
  case True
  then show ?thesis
    by (cases "should_exclude fs ee en p") (simp_all add: process_file_excluded process_file_binary)
next
  case False
  show ?thesis
  proof (cases "read_text fs p")
    case (Inl e)
    with False show ?thesis
      by (cases e) (simp_all add: process_file_def)
  next
    case (Inr c)
    show ?thesis
    proof (cases "exceeds mb (total_bytes st) (int (length c))")
      case True
      with False Inr show ?thesis by (simp add: process_file_over)
    next
      case over: False
      with False Inr show ?thesis
        by (simp add: process_file_accepted passes_def size_of_def block_of_def content_of_Inr)
    qed
  qed
qed

lemma exec_cases:
  "same_result st (exec fs ee en mb st a)
   \<or> (\<exists>p. a = Process p \<and> passes fs ee en p \<and> \<not> exceeds mb (total_bytes st) (size_of fs p)
      \<and> formatted_contents (exec fs ee en mb st a) = formatted_contents st @ [block_of fs p]
      \<and> included_files (exec fs ee en mb st a) = included_files st @ [p]
      \<and> total_bytes (exec fs ee en mb st a) = total_bytes st + size_of fs p)"
proof (cases a)
  case (Process p)
  with process_file_cases [of st fs ee en mb p] show ?thesis
    by (simp add: exec_def)
next
  case (Print l)
  then show ?thesis by (simp add: exec_def)
qed

section \<open>Invariants of the run\<close>

lemma consistent_start: "consistent fs ee en start"
  by (simp add: consistent_def start_def)

lemma consistent_exec:
  assumes "consistent fs ee en st"
  shows "consistent fs ee en (exec fs ee en mb st a)"
  using exec_cases [of st fs ee en mb a] assms
  by (auto simp: consistent_def same_result_def)

lemma consistent_run:
  "consistent fs ee en st \<Longrightarrow> consistent fs ee en (run fs ee en mb as st)"
  by (induction as arbitrary: st) (simp_all add: consistent_exec)

lemma size_of_nonneg [simp]: "0 \<le> size_of fs p"
  by (simp add: size_of_def)

lemma within_exec:
  assumes "0 < m" "total_bytes st \<le> m"
  shows "total_bytes (exec fs ee en (Some m) st a) \<le> m"
  using exec_cases [of st fs ee en "Some m" a] assms
  by (auto simp: same_result_def exceeds_def)

lemma within_run:
  "0 < m \<Longrightarrow> total_bytes st \<le> m \<Longrightarrow> total_bytes (run fs ee en (Some m) as st) \<le> m"
  by (induction as arbitrary: st) (simp_all add: within_exec)

lemma included_exec:
  "\<exists>xs. included_files (exec fs ee en mb st a) = included_files st @ xs \<and> subseq xs (processed [a])"
  using exec_cases [of st fs ee en mb a]
  by (cases a) (auto simp: same_result_def)

lemma processed_append: "processed (as @ bs) = processed as @ processed bs"
  by (induction as rule: processed.induct) simp_all

lemma included_run:
  "\<exists>xs. included_files (run fs ee en mb as st) = included_files st @ xs \<and> subseq xs (processed as)"
proof (induction as arbitrary: st)
  case Nil
  show ?case by simp
next
  case (Cons a as)
  obtain xs where xs: "included_files (exec fs ee en mb st a) = included_files st @ xs"
      "subseq xs (processed [a])"
    using included_exec by blast
  obtain ys where ys: "included_files (run fs ee en mb as (exec fs ee en mb st a))
        = included_files (exec fs ee en mb st a) @ ys" "subseq ys (processed as)"
    using Cons.IH by blast
  have "processed (a # as) = processed [a] @ processed as"
    using processed_append [of "[a]" as] by simp
  with xs ys have "included_files (run fs ee en mb (a # as) st) = included_files st @ (xs @ ys)
      \<and> subseq (xs @ ys) (processed (a # as))"
    by (simp add: list_emb_append_mono)
  then show ?case by blast
qed

lemma run_within:
  assumes "0 < m"
  shows "total_bytes (run fs ee en (Some m) as start) \<le> m"
  using assms by (intro within_run) (simp_all add: start_def)

lemma collect_consistent:
  "consistent fs (map (lower fs) (or_empty ee)) (or_empty en) (collect fs fp dp ee en mb)"
  unfolding collect_run by (rule consistent_run) (rule consistent_start)

lemma included_passes:
  assumes "p \<in> set (included_files (collect fs fp dp ee en mb))"
  shows "passes fs (map (lower fs) (or_empty ee)) (or_empty en) p"
proof -
  have "filter (passes fs (map (lower fs) (or_empty ee)) (or_empty en))
          (included_files (collect fs fp dp ee en mb))
        = included_files (collect fs fp dp ee en mb)"
    using collect_consistent [of fs ee en fp dp mb] by (simp add: consistent_def)
  then have "\<forall>q \<in> set (included_files (collect fs fp dp ee en mb)).
               passes fs (map (lower fs) (or_empty ee)) (or_empty en) q"
    by (simp only: filter_id_conv)
  with assms show ?thesis
    by blast
qed

lemma collect_lengths:
  "length (formatted_contents (collect fs fp dp ee en mb))
     = length (included_files (collect fs fp dp ee en mb))"
  using collect_consistent [of fs ee en fp dp mb]
  by (simp add: consistent_def)

section \<open>Evaluating runs\<close>

lemmas eval_defs =
  collect_def truthy_def or_empty_def start_def process_file_def should_exclude_def basename_def splitext_def
  ascii_lower_def ascii_lower_char_def is_binary_file_def read_text_def exceeds_def format_file_content_def
  print_def files_fs_def Let_def

section \<open>The formatted block\<close>

text \<open>
  C6. The block of a file with base name \<open>N\<close> and decoded content \<open>C\<close> is exactly
  \<^verbatim>\<open>'File: ' + N + '\n"""\n' + C + '\n"""'\<close>: the content stands in it unmodified, after
  the header, and a triple quote inside the content is not escaped. Every block of a result
  is the block of its included path and of that path's decoded content.
\<close>

theorem format_file_content_exact:
  "format_file_content file_path content
     = ''File: '' @ basename file_path @ [LF, DQ, DQ, DQ, LF] @ content @ [LF, DQ, DQ, DQ]
   \<and> take (length content)
        (drop (length (''File: '' @ basename file_path @ [LF, DQ, DQ, DQ, LF]))
           (format_file_content file_path content)) = content
   \<and> format_file_content ''docs/q.txt'' [DQ, DQ, DQ]
       = ''File: q.txt'' @ [LF, DQ, DQ, DQ, LF] @ [DQ, DQ, DQ] @ [LF, DQ, DQ, DQ]
   \<and> (\<forall>i < length (included_files
                     (collect fs file_paths dir_paths exclude_exts exclude_names max_bytes)).
        \<exists>N C. N = basename (included_files
                   (collect fs file_paths dir_paths exclude_exts exclude_names max_bytes) ! i)
          \<and> read_text fs (included_files
                   (collect fs file_paths dir_paths exclude_exts exclude_names max_bytes) ! i) = Inr C
          \<and> formatted_contents
                   (collect fs file_paths dir_paths exclude_exts exclude_names max_bytes) ! i
              = ''File: '' @ N @ [LF, DQ, DQ, DQ, LF] @ C @ [LF, DQ, DQ, DQ])"
proof -
  let ?r = "collect fs file_paths dir_paths exclude_exts exclude_names max_bytes"
  let ?ee = "map (lower fs) (or_empty exclude_exts)" and ?en = "or_empty exclude_names"
  have shape: "format_file_content p c
     = ''File: '' @ basename p @ [LF, DQ, DQ, DQ, LF] @ c @ [LF, DQ, DQ, DQ]" for p c
    by (simp add: format_file_content_def)
  have inside: "take (length content)
        (drop (length (''File: '' @ basename file_path @ [LF, DQ, DQ, DQ, LF]))
           (format_file_content file_path content)) = content"
    by (simp add: shape)
  have example: "format_file_content ''docs/q.txt'' [DQ, DQ, DQ]
       = ''File: q.txt'' @ [LF, DQ, DQ, DQ, LF] @ [DQ, DQ, DQ] @ [LF, DQ, DQ, DQ]"
    by (simp add: shape basename_def)
  have cons: "consistent fs ?ee ?en ?r"
    unfolding collect_run by (rule consistent_run) (rule consistent_start)
  have each: "\<exists>N C. N = basename (included_files ?r ! i)
          \<and> read_text fs (included_files ?r ! i) = Inr C
          \<and> formatted_contents ?r ! i = ''File: '' @ N @ [LF, DQ, DQ, DQ, LF] @ C @ [LF, DQ, DQ, DQ]"
    if i: "i < length (included_files ?r)" for i
  proof -
    let ?p = "included_files ?r ! i"
    have "?p \<in> set (filter (passes fs ?ee ?en) (included_files ?r))"
      using cons i by (simp add: consistent_def)
    then have "\<not> isl (read_text fs ?p)"
      by (simp add: passes_def)
    then obtain C where C: "read_text fs ?p = Inr C"
      by (cases "read_text fs ?p") auto
    have "formatted_contents ?r ! i = block_of fs ?p"
      using cons i by (simp add: consistent_def)
    with C show ?thesis
      by (simp add: block_of_def content_of_Inr shape)
  qed
  from shape inside example each show ?thesis
    by blast
qed

theorem format_file_content_exact_witness:
  "(0::nat) < length (included_files (collect (files_fs [(''a.txt'', ''hello'')])
        (Some [''a.txt'']) None None None None))
   \<and> formatted_contents (collect (files_fs [(''a.txt'', ''hello'')])
        (Some [''a.txt'']) None None None None) ! 0
      = ''File: a.txt'' @ [LF, DQ, DQ, DQ, LF] @ ''hello'' @ [LF, DQ, DQ, DQ]"
  using format_file_content_exact
    [of "''a.txt''" "''hello''" "files_fs [(''a.txt'', ''hello'')]" "Some [''a.txt'']" None None None None]
  by (simp add: eval_defs)

section \<open>The prompt\<close>

lemma str_join_Cons: "str_join sep (b # bs) = b @ concat (map (\<lambda>x. sep @ x) bs)"
  by (induction bs arbitrary: b) simp_all

text \<open>
  C7. When at least one file was included, the prompt is the question, two newlines, and the
  blocks with two newlines between neighbours; when none was, it is the question alone. The
  question \<^verbatim>\<open>Summarize\<close> with the one file \<^verbatim>\<open>a.txt\<close> holding \<^verbatim>\<open>hello\<close> gives
  \<^verbatim>\<open>'Summarize\n\nFile: a.txt\n"""\nhello\n"""'\<close>.
\<close>

theorem main_prompt_payload:
  "main_prompt fs question file dir exclude_ext exclude_name max_bytes
     = (case get_files_from_paths fs (Some file) (Some dir) (Some exclude_ext) (Some exclude_name)
               max_bytes of
          (blocks, included) \<Rightarrow>
            if included = [] then question
            else question @ [LF, LF] @ str_join [LF, LF] blocks)
   \<and> str_join [LF, LF] (b # bs) = b @ concat (map (\<lambda>x. [LF, LF] @ x) bs)
   \<and> main_prompt (files_fs [(''a.txt'', ''hello'')]) ''Summarize'' [''a.txt''] [] [] [] None
       = ''Summarize'' @ [LF, LF] @ ''File: a.txt'' @ [LF, DQ, DQ, DQ, LF] @ ''hello''
           @ [LF, DQ, DQ, DQ]"
proof -
  let ?r = "collect fs (Some file) (Some dir) (Some exclude_ext) (Some exclude_name) max_bytes"
  have "(included_files ?r = []) = (formatted_contents ?r = [])"
    using collect_lengths [of fs "Some file" "Some dir" "Some exclude_ext" "Some exclude_name" max_bytes]
    by (metis length_0_conv)
  then have general: "main_prompt fs question file dir exclude_ext exclude_name max_bytes
     = (case get_files_from_paths fs (Some file) (Some dir) (Some exclude_ext) (Some exclude_name)
               max_bytes of
          (blocks, included) \<Rightarrow>
            if included = [] then question
            else question @ [LF, LF] @ str_join [LF, LF] blocks)"
    by (simp add: main_prompt_def get_files_from_paths_def final_prompt_def Let_def)
  have scenario: "main_prompt (files_fs [(''a.txt'', ''hello'')]) ''Summarize'' [''a.txt''] [] [] [] None
       = ''Summarize'' @ [LF, LF] @ ''File: a.txt'' @ [LF, DQ, DQ, DQ, LF] @ ''hello''
           @ [LF, DQ, DQ, DQ]"
    by (simp add: main_prompt_def get_files_from_paths_def final_prompt_def eval_defs)
  from general scenario show ?thesis
    by (simp add: str_join_Cons)
qed

theorem main_prompt_payload_witness:
  "main_prompt (files_fs [(''a.txt'', ''hello''), (''b.txt'', ''bye'')]) ''Compare''
      [''a.txt'', ''missing.txt'', ''b.txt''] [] [] [] None
     = ''Compare'' @ [LF, LF] @ ''File: a.txt'' @ [LF, DQ, DQ, DQ, LF] @ ''hello'' @ [LF, DQ, DQ, DQ]
         @ [LF, LF] @ ''File: b.txt'' @ [LF, DQ, DQ, DQ, LF] @ ''bye'' @ [LF, DQ, DQ, DQ]
   \<and> main_prompt (files_fs []) ''Compare'' [''missing.txt''] [] [] [] None = ''Compare''"
  using main_prompt_payload
    [of "files_fs [(''a.txt'', ''hello''), (''b.txt'', ''bye'')]" "''Compare''"
        "[''a.txt'', ''missing.txt'', ''b.txt'']" "[]" "[]" "[]" None]
    main_prompt_payload [of "files_fs []" "''Compare''" "[''missing.txt'']" "[]" "[]" "[]" None]
  by (simp add: get_files_from_paths_def eval_defs)

section \<open>Binary files\<close>

text \<open>
  C5. A file with a NUL byte among its first 1024 bytes is classified as binary, whatever
  follows, and so is a file that cannot be opened or read for the probe; the call for such
  a file returns with a warning at most, and the file is in no result.
\<close>

theorem binary_file_skipped:
  assumes "(\<exists>bytes. read_bytes fs p = Inr bytes \<and> NUL \<in> set (take 1024 bytes))
           \<or> (\<exists>e. read_bytes fs p = Inl e)"
  shows "is_binary_file fs p
         \<and> process_file fs ee en mb p st
             = (if should_exclude fs ee en p then st
                else print (''Warning: Skipping binary file: '' @ p) st)
         \<and> same_result st (process_file fs ee en mb p st)
         \<and> p \<notin> set (included_files
                        (collect fs file_paths dir_paths exclude_exts exclude_names max_bytes))"
proof -
  from assms have bin: "is_binary_file fs p"
    by (auto simp: is_binary_file_def)
  then have call: "process_file fs ee en mb p st
             = (if should_exclude fs ee en p then st
                else print (''Warning: Skipping binary file: '' @ p) st)"
    by (simp add: process_file_def)
  then have same: "same_result st (process_file fs ee en mb p st)"
    by simp
  have "p \<notin> set (included_files
                        (collect fs file_paths dir_paths exclude_exts exclude_names max_bytes))"
    using included_passes [of p fs file_paths dir_paths exclude_exts exclude_names max_bytes] bin
    by (auto simp: passes_def)
  with bin call same show ?thesis
    by simp
qed

theorem binary_file_skipped_witness:
  "is_binary_file (files_fs [(''b.dat'', [CHR ''o'', CHR ''k'', NUL, CHR ''o'', CHR ''k'']),
                             (''a.txt'', ''hello'')]) ''b.dat''
   \<and> ''b.dat'' \<notin> set (included_files
        (collect (files_fs [(''b.dat'', [CHR ''o'', CHR ''k'', NUL, CHR ''o'', CHR ''k'']),
                            (''a.txt'', ''hello'')])
           (Some [''b.dat'', ''a.txt'']) None None None None))
   \<and> is_binary_file locked_fs ''locked.txt''
   \<and> ''locked.txt'' \<notin> set (included_files (collect locked_fs (Some [''locked.txt'']) None None None None))"
proof -
  let ?fs = "files_fs [(''b.dat'', [CHR ''o'', CHR ''k'', NUL, CHR ''o'', CHR ''k'']),
                       (''a.txt'', ''hello'')]"
  have h1: "(\<exists>bytes. read_bytes ?fs ''b.dat'' = Inr bytes \<and> NUL \<in> set (take 1024 bytes))
           \<or> (\<exists>e. read_bytes ?fs ''b.dat'' = Inl e)"
    by (simp add: files_fs_def)
  have h2: "(\<exists>bytes. read_bytes locked_fs ''locked.txt'' = Inr bytes \<and> NUL \<in> set (take 1024 bytes))
           \<or> (\<exists>e. read_bytes locked_fs ''locked.txt'' = Inl e)"
    by (simp add: locked_fs_def)
  show ?thesis
    using binary_file_skipped [OF h1, of "[]" "[]" None start "Some [''b.dat'', ''a.txt'']" None None None None]
      binary_file_skipped [OF h2, of "[]" "[]" None start "Some [''locked.txt'']" None None None None]
    by simp
qed

section \<open>The dry-run total\<close>

lemma sum_sizes_agrees:
  assumes "\<forall>p \<in> set ps. read_text fs' p = read_text fs p \<and> \<not> isl (read_text fs p)"
  shows "sum_sizes fs' acc ps = Inr (acc + sum_list (map (size_of fs) ps))"
  using assms
proof (induction ps arbitrary: acc)
  case Nil
  show ?case by simp
next
  case (Cons p ps)
  from Cons.prems obtain c where c: "read_text fs p = Inr c" "read_text fs' p = Inr c"
    by (cases "read_text fs p") auto
  from Cons.prems have "\<forall>q \<in> set ps. read_text fs' q = read_text fs q \<and> \<not> isl (read_text fs q)"
    by simp
  then have "sum_sizes fs' (acc + int (length c)) ps
               = Inr (acc + int (length c) + sum_list (map (size_of fs) ps))"
    by (rule Cons.IH)
  moreover have "size_of fs p = int (length c)"
    using c by (simp add: size_of_def content_of_def)
  ultimately show ?case
    using c by simp
qed

text \<open>
  C8. \<open>fs\<close> is the file system during the collection and \<open>fs'\<close> the one the summary reads.
  When every included file reads in \<open>fs'\<close> as it did in \<open>fs\<close>, the total that the summary
  computes from the files is the running total of the collection.
\<close>

theorem summary_total_is_running_total:
  assumes "\<forall>p \<in> set (included_files (collect fs file_paths dir_paths exclude_exts exclude_names max_bytes)).
             read_text fs' p = read_text fs p"
  shows "summary_total fs'
           (included_files (collect fs file_paths dir_paths exclude_exts exclude_names max_bytes))
         = Inr (total_bytes (collect fs file_paths dir_paths exclude_exts exclude_names max_bytes))"
proof -
  let ?r = "collect fs file_paths dir_paths exclude_exts exclude_names max_bytes"
  have cons: "consistent fs (map (lower fs) (or_empty exclude_exts)) (or_empty exclude_names) ?r"
    by (rule collect_consistent)
  have "\<forall>p \<in> set (included_files ?r). read_text fs' p = read_text fs p \<and> \<not> isl (read_text fs p)"
    using assms included_passes [of _ fs file_paths dir_paths exclude_exts exclude_names max_bytes]
    by (auto simp: passes_def)
  then have "sum_sizes fs' 0 (included_files ?r)
               = Inr (0 + sum_list (map (size_of fs) (included_files ?r)))"
    by (rule sum_sizes_agrees)
  moreover have "total_bytes ?r = sum_list (map (size_of fs) (included_files ?r))"
    using cons by (simp add: consistent_def)
  ultimately show ?thesis
    by (cases "included_files ?r = []") (simp_all add: summary_total_def)
qed

theorem summary_total_is_running_total_witness:
  "summary_total (files_fs [(''a.txt'', ''hello''), (''b.txt'', ''bye''), (''s.png'', ''new'')])
     (included_files (collect (files_fs [(''a.txt'', ''hello''), (''b.txt'', ''bye''), (''s.png'', ''old picture'')])
        (Some [''a.txt'', ''s.png'', ''b.txt'']) None (Some [''.png'']) None None))
     = Inr 8
   \<and> total_bytes (collect (files_fs [(''a.txt'', ''hello''), (''b.txt'', ''bye''), (''s.png'', ''old picture'')])
        (Some [''a.txt'', ''s.png'', ''b.txt'']) None (Some [''.png'']) None None) = 8"
proof -
  let ?fs = "files_fs [(''a.txt'', ''hello''), (''b.txt'', ''bye''), (''s.png'', ''old picture'')]"
  let ?fs' = "files_fs [(''a.txt'', ''hello''), (''b.txt'', ''bye''), (''s.png'', ''new'')]"
  have files: "included_files (collect ?fs (Some [''a.txt'', ''s.png'', ''b.txt'']) None (Some [''.png'']) None None)
                 = [''a.txt'', ''b.txt'']"
    by (simp add: eval_defs)
  have total: "total_bytes (collect ?fs (Some [''a.txt'', ''s.png'', ''b.txt'']) None (Some [''.png'']) None None) = 8"
    by (simp add: eval_defs)
  have h: "\<forall>p \<in> set (included_files (collect ?fs (Some [''a.txt'', ''s.png'', ''b.txt'']) None (Some [''.png'']) None None)).
             read_text ?fs' p = read_text ?fs p"
    unfolding files by (simp add: read_text_def files_fs_def)
  show ?thesis
    using summary_total_is_running_total [OF h] total by simp
qed

section \<open>Parallel sequences\<close>

lemma consistent_parallel:
  assumes "consistent fs ee en st"
  shows "length (formatted_contents st) = length (included_files st)
         \<and> (\<forall>i < length (included_files st).
               \<exists>content. read_text fs (included_files st ! i) = Inr content
                 \<and> formatted_contents st ! i = format_file_content (included_files st ! i) content)"
proof -
  from assms have blocks: "formatted_contents st = map (block_of fs) (included_files st)"
    and pass: "filter (passes fs ee en) (included_files st) = included_files st"
    by (simp_all add: consistent_def)
  from pass have all: "\<forall>q \<in> set (included_files st). passes fs ee en q"
    by (simp only: filter_id_conv)
  have "\<exists>content. read_text fs (included_files st ! i) = Inr content
          \<and> formatted_contents st ! i = format_file_content (included_files st ! i) content"
    if i: "i < length (included_files st)" for i
  proof -
    from all i have "\<not> isl (read_text fs (included_files st ! i))"
      by (simp add: passes_def)
    then obtain c where c: "read_text fs (included_files st ! i) = Inr c"
      by (cases "read_text fs (included_files st ! i)") auto
    with blocks i show ?thesis
      by (simp add: block_of_def content_of_Inr)
  qed
  with blocks show ?thesis
    by simp
qed

text \<open>
  C9. After any number \<open>n\<close> of steps of the collection, and in the result returned, there
  are as many blocks as included paths and the block at each index is the formatted decoded
  content of the path at that index; one call of the file processor leaves both sequences as
  they are or appends one block to the first and its path to the second.
\<close>

theorem blocks_parallel_to_files:
  "(let st = run fs (map (lower fs) (or_empty exclude_exts)) (or_empty exclude_names) max_bytes
               (take n (schedule fs file_paths dir_paths)) start
    in length (formatted_contents st) = length (included_files st)
       \<and> (\<forall>i < length (included_files st).
             \<exists>content. read_text fs (included_files st ! i) = Inr content
               \<and> formatted_contents st ! i = format_file_content (included_files st ! i) content))
   \<and> (case get_files_from_paths fs file_paths dir_paths exclude_exts exclude_names max_bytes of
        (blocks, included) \<Rightarrow>
          length blocks = length included
          \<and> (\<forall>i < length included.
                \<exists>content. read_text fs (included ! i) = Inr content
                  \<and> blocks ! i = format_file_content (included ! i) content))
   \<and> ((formatted_contents (process_file fs ee en mb p st) = formatted_contents st
        \<and> included_files (process_file fs ee en mb p st) = included_files st)
       \<or> (\<exists>content. read_text fs p = Inr content
            \<and> formatted_contents (process_file fs ee en mb p st)
                = formatted_contents st @ [format_file_content p content]
            \<and> included_files (process_file fs ee en mb p st) = included_files st @ [p]))"
proof -
  let ?ee = "map (lower fs) (or_empty exclude_exts)" and ?en = "or_empty exclude_names"
  have "consistent fs ?ee ?en
          (run fs ?ee ?en max_bytes (take n (schedule fs file_paths dir_paths)) start)"
    by (rule consistent_run) (rule consistent_start)
  then have during: "let st = run fs ?ee ?en max_bytes (take n (schedule fs file_paths dir_paths)) start
    in length (formatted_contents st) = length (included_files st)
       \<and> (\<forall>i < length (included_files st).
             \<exists>content. read_text fs (included_files st ! i) = Inr content
               \<and> formatted_contents st ! i = format_file_content (included_files st ! i) content)"
    unfolding Let_def by (rule consistent_parallel)
  have after: "case get_files_from_paths fs file_paths dir_paths exclude_exts exclude_names max_bytes of
        (blocks, included) \<Rightarrow>
          length blocks = length included
          \<and> (\<forall>i < length included.
                \<exists>content. read_text fs (included ! i) = Inr content
                  \<and> blocks ! i = format_file_content (included ! i) content)"
    using consistent_parallel [OF collect_consistent [of fs exclude_exts exclude_names file_paths dir_paths max_bytes]]
    by (simp add: get_files_from_paths_def Let_def)
  have step: "(formatted_contents (process_file fs ee en mb p st) = formatted_contents st
        \<and> included_files (process_file fs ee en mb p st) = included_files st)
       \<or> (\<exists>content. read_text fs p = Inr content
            \<and> formatted_contents (process_file fs ee en mb p st)
                = formatted_contents st @ [format_file_content p content]
            \<and> included_files (process_file fs ee en mb p st) = included_files st @ [p])"
  proof (cases "same_result st (process_file fs ee en mb p st)")
    case True
    then show ?thesis by (simp add: same_result_def)
  next
    case False
    with process_file_cases [of st fs ee en mb p]
    have a: "passes fs ee en p"
      "formatted_contents (process_file fs ee en mb p st) = formatted_contents st @ [block_of fs p]"
      "included_files (process_file fs ee en mb p st) = included_files st @ [p]"
      by blast+
    from a(1) obtain c where "read_text fs p = Inr c"
      by (cases "read_text fs p") (auto simp: passes_def)
    with a show ?thesis
      by (simp add: block_of_def content_of_Inr)
  qed
  from during after step show ?thesis
    by blast
qed

theorem blocks_parallel_to_files_witness:
  "included_files (run (files_fs [(''a.txt'', ''hello''), (''b.txt'', ''bye'')]) [] [] None
        (take 2 (schedule (files_fs [(''a.txt'', ''hello''), (''b.txt'', ''bye'')])
                   (Some [''a.txt'', ''none.txt'', ''b.txt'']) None)) start) = [''a.txt'']
   \<and> formatted_contents (run (files_fs [(''a.txt'', ''hello''), (''b.txt'', ''bye'')]) [] [] None
        (take 2 (schedule (files_fs [(''a.txt'', ''hello''), (''b.txt'', ''bye'')])
                   (Some [''a.txt'', ''none.txt'', ''b.txt'']) None)) start)
      = [format_file_content ''a.txt'' ''hello'']
   \<and> get_files_from_paths (files_fs [(''a.txt'', ''hello''), (''b.txt'', ''bye'')])
        (Some [''a.txt'', ''none.txt'', ''b.txt'']) None None None None
      = ([format_file_content ''a.txt'' ''hello'', format_file_content ''b.txt'' ''bye''],
         [''a.txt'', ''b.txt''])"
  using blocks_parallel_to_files
    [of "files_fs [(''a.txt'', ''hello''), (''b.txt'', ''bye'')]" None None None 2
        "Some [''a.txt'', ''none.txt'', ''b.txt'']" None "[]" "[]" None "''a.txt''" start]
  by (simp add: get_files_from_paths_def schedule_def file_action_def exec_def eval_defs)

section \<open>Duplicates\<close>








lemma included_subseq:
  "subseq (included_files (collect fs fp dp ee en mb)) (candidates fs fp dp)"
proof -
  obtain xs where "included_files (collect fs fp dp ee en mb) = included_files start @ xs"
      "subseq xs (processed (schedule fs fp dp))"
    unfolding collect_run using included_run by blast
  then show ?thesis
    by (simp add: start_def candidates_def)
qed









section \<open>The byte budget\<close>

text \<open>
  C1. With a positive \<open>max_bytes\<close>: after any number \<open>n\<close> of steps the running total is the
  sum of the encoded sizes of the included files and is at most \<open>max_bytes\<close>, and so is the
  sum for the result; a file that would take the total over \<open>max_bytes\<close> is skipped with a
  warning, leaving the blocks, the included files and the total as they were, and the files
  after it are processed from that unchanged total, so that one that fits is included; the
  included files stand in the order of processing.
\<close>

theorem budget_respected:
  assumes "0 < m"
  shows "(let st = run fs (map (lower fs) (or_empty exclude_exts)) (or_empty exclude_names) (Some m)
                     (take n (schedule fs file_paths dir_paths)) start
          in total_bytes st = sum_list (map (size_of fs) (included_files st))
             \<and> total_bytes st \<le> m)
         \<and> sum_list (map (size_of fs)
              (included_files (collect fs file_paths dir_paths exclude_exts exclude_names (Some m))))
             \<le> m
         \<and> (\<not> should_exclude fs ee en p \<and> \<not> is_binary_file fs p \<and> read_text fs p = Inr content
              \<and> m < total_bytes st + int (length content)
            \<longrightarrow> process_file fs ee en (Some m) p st
                  = print (''Warning: Skipping '' @ p @ '' as it would exceed the max bytes limit'') st
                \<and> same_result st (process_file fs ee en (Some m) p st)
                \<and> run fs ee en (Some m) (Process p # rest) st
                    = run fs ee en (Some m) rest
                        (print (''Warning: Skipping '' @ p
                                @ '' as it would exceed the max bytes limit'') st))
         \<and> (\<not> should_exclude fs ee en q \<and> \<not> is_binary_file fs q \<and> read_text fs q = Inr text
              \<and> total_bytes st' + int (length text) \<le> m
            \<longrightarrow> process_file fs ee en (Some m) q st'
                  = st'\<lparr>total_bytes := total_bytes st' + int (length text),
                        formatted_contents := formatted_contents st' @ [format_file_content q text],
                        included_files := included_files st' @ [q]\<rparr>)
         \<and> subseq (included_files (collect fs file_paths dir_paths exclude_exts exclude_names (Some m)))
              (candidates fs file_paths dir_paths)"
proof -
  let ?ee = "map (lower fs) (or_empty exclude_exts)" and ?en = "or_empty exclude_names"
  let ?st = "run fs ?ee ?en (Some m) (take n (schedule fs file_paths dir_paths)) start"
  let ?r = "collect fs file_paths dir_paths exclude_exts exclude_names (Some m)"
  have "consistent fs ?ee ?en ?st"
    by (rule consistent_run) (rule consistent_start)
  then have sum: "total_bytes ?st = sum_list (map (size_of fs) (included_files ?st))"
    by (simp add: consistent_def)
  have le: "total_bytes ?st \<le> m"
    using assms by (rule run_within)
  have "total_bytes ?r = sum_list (map (size_of fs) (included_files ?r))"
    using collect_consistent [of fs exclude_exts exclude_names file_paths dir_paths "Some m"]
    by (simp add: consistent_def)
  moreover have "total_bytes ?r \<le> m"
    unfolding collect_run using assms by (rule run_within)
  ultimately have final: "sum_list (map (size_of fs) (included_files ?r)) \<le> m"
    by simp
  have skip: "process_file fs ee en (Some m) p st
                  = print (''Warning: Skipping '' @ p @ '' as it would exceed the max bytes limit'') st
                \<and> same_result st (process_file fs ee en (Some m) p st)
                \<and> run fs ee en (Some m) (Process p # rest) st
                    = run fs ee en (Some m) rest
                        (print (''Warning: Skipping '' @ p
                                @ '' as it would exceed the max bytes limit'') st)"
    if "\<not> should_exclude fs ee en p" "\<not> is_binary_file fs p" "read_text fs p = Inr content"
      "m < total_bytes st + int (length content)"
  proof -
    from that(4) assms have "exceeds (Some m) (total_bytes st) (int (length content))"
      by (simp add: exceeds_def)
    with that have "process_file fs ee en (Some m) p st
        = print (''Warning: Skipping '' @ p @ '' as it would exceed the max bytes limit'') st"
      by (simp add: process_file_over)
    then show ?thesis
      by (simp add: exec_def)
  qed
  have fit: "process_file fs ee en (Some m) q st'
                  = st'\<lparr>total_bytes := total_bytes st' + int (length text),
                        formatted_contents := formatted_contents st' @ [format_file_content q text],
                        included_files := included_files st' @ [q]\<rparr>"
    if "\<not> should_exclude fs ee en q" "\<not> is_binary_file fs q" "read_text fs q = Inr text"
      "total_bytes st' + int (length text) \<le> m"
  proof -
    from that(4) have "\<not> exceeds (Some m) (total_bytes st') (int (length text))"
      by (simp add: exceeds_def)
    with that show ?thesis
      by (simp add: process_file_accepted)
  qed
  from sum le final skip fit
    included_subseq [of fs file_paths dir_paths exclude_exts exclude_names "Some m"]
  show ?thesis
    unfolding Let_def by blast
qed

theorem budget_respected_witness:
  "(0::int) < 5
   \<and> included_files (collect (files_fs [(''a.txt'', ''four''), (''b.txt'', ''more''), (''c.txt'', ''x'')])
        (Some [''a.txt'', ''b.txt'']) None None None (Some 5)) = [''a.txt'']
   \<and> total_bytes (collect (files_fs [(''a.txt'', ''four''), (''b.txt'', ''more''), (''c.txt'', ''x'')])
        (Some [''a.txt'', ''b.txt'']) None None None (Some 5)) = 4
   \<and> sum_list (map (size_of (files_fs [(''a.txt'', ''four''), (''b.txt'', ''more''), (''c.txt'', ''x'')]))
        (included_files (collect (files_fs [(''a.txt'', ''four''), (''b.txt'', ''more''), (''c.txt'', ''x'')])
           (Some [''a.txt'', ''b.txt'']) None None None (Some 5)))) \<le> 5
   \<and> process_file (files_fs [(''a.txt'', ''four''), (''b.txt'', ''more''), (''c.txt'', ''x'')]) [] []
        (Some 5) ''b.txt''
        \<lparr>formatted_contents = [format_file_content ''a.txt'' ''four''],
         included_files = [''a.txt''], total_bytes = 4, printed = []\<rparr>
      = \<lparr>formatted_contents = [format_file_content ''a.txt'' ''four''],
         included_files = [''a.txt''], total_bytes = 4,
         printed = [''Warning: Skipping b.txt as it would exceed the max bytes limit'']\<rparr>
   \<and> included_files
        (process_file (files_fs [(''a.txt'', ''four''), (''b.txt'', ''more''), (''c.txt'', ''x'')]) [] []
           (Some 5) ''c.txt''
           \<lparr>formatted_contents = [format_file_content ''a.txt'' ''four''],
            included_files = [''a.txt''], total_bytes = 4,
            printed = [''Warning: Skipping b.txt as it would exceed the max bytes limit'']\<rparr>)
      = [''a.txt'', ''c.txt'']"
proof -
  let ?fs = "files_fs [(''a.txt'', ''four''), (''b.txt'', ''more''), (''c.txt'', ''x'')]"
  let ?st = "\<lparr>formatted_contents = [format_file_content ''a.txt'' ''four''],
         included_files = [''a.txt''], total_bytes = 4, printed = []\<rparr>"
  have m: "(0::int) < 5" by simp
  have h: "\<not> should_exclude ?fs [] [] ''b.txt'' \<and> \<not> is_binary_file ?fs ''b.txt''
           \<and> read_text ?fs ''b.txt'' = Inr ''more''
           \<and> 5 < total_bytes ?st + int (length ''more'')"
    by (simp add: should_exclude_def is_binary_file_def read_text_def files_fs_def)
  let ?st' = "\<lparr>formatted_contents = [format_file_content ''a.txt'' ''four''],
         included_files = [''a.txt''], total_bytes = 4,
         printed = [''Warning: Skipping b.txt as it would exceed the max bytes limit'']\<rparr>"
  have h': "\<not> should_exclude ?fs [] [] ''c.txt'' \<and> \<not> is_binary_file ?fs ''c.txt''
           \<and> read_text ?fs ''c.txt'' = Inr ''x''
           \<and> total_bytes ?st' + int (length ''x'') \<le> 5"
    by (simp add: should_exclude_def is_binary_file_def read_text_def files_fs_def)
  have files: "included_files (collect ?fs (Some [''a.txt'', ''b.txt'']) None None None (Some 5)) = [''a.txt'']"
    by (simp add: eval_defs)
  have total: "total_bytes (collect ?fs (Some [''a.txt'', ''b.txt'']) None None None (Some 5)) = 4"
    by (simp add: eval_defs)
  show ?thesis
    using budget_respected [OF m, of ?fs None None 2 "Some [''a.txt'', ''b.txt'']" None
        "[]" "[]" "''b.txt''" "''more''" ?st "[]" "''c.txt''" "''x''" ?st'] h h' files total
    by (simp add: print_def)
qed

text \<open>
  The budget of C1 fails for \<open>max_bytes = 0\<close>, which the test \<^verbatim>\<open>if max_bytes and \<dots>\<close>
  takes for no budget, and for a negative \<open>max_bytes\<close>, which the empty result exceeds; and a
  later, smaller file is included after a skipped one when it fits.
\<close>

theorem budget_counterexample:
  "\<not> total_bytes (collect (files_fs [(''a.txt'', ''hello'')]) (Some [''a.txt'']) None None None
        (Some 0)) \<le> 0
   \<and> included_files (collect (files_fs [(''a.txt'', ''hello'')]) (Some [''a.txt'']) None None None
        (Some 0)) = [''a.txt'']
   \<and> \<not> total_bytes (collect (files_fs [(''a.txt'', ''hello'')]) (Some [''a.txt'']) None None None
        (Some (- 1))) \<le> - 1
   \<and> included_files (collect (files_fs [(''a.txt'', ''four''), (''b.txt'', ''more''), (''c.txt'', ''x'')])
        (Some [''a.txt'', ''b.txt'', ''c.txt'']) None None None (Some 5)) = [''a.txt'', ''c.txt'']"
  by (simp add: eval_defs)

text \<open>
  C10. A file whose size takes the running total exactly to \<open>max_bytes\<close> is included. With a
  \<open>max_bytes\<close> that is not negative, a file whose content encodes to zero bytes is included
  by a call made after any number \<open>n\<close> of steps of a run, whatever the running total then.
\<close>

theorem budget_boundary:
  "(\<not> should_exclude fs ee en p \<and> \<not> is_binary_file fs p \<and> read_text fs p = Inr content
      \<and> total_bytes st + int (length content) = m
    \<longrightarrow> process_file fs ee en (Some m) p st
          = st\<lparr>total_bytes := m,
               formatted_contents := formatted_contents st @ [format_file_content p content],
               included_files := included_files st @ [p]\<rparr>)
   \<and> (0 \<le> m \<and> \<not> should_exclude fs (map (lower fs) (or_empty exclude_exts)) (or_empty exclude_names) q
      \<and> \<not> is_binary_file fs q \<and> read_text fs q = Inr []
    \<longrightarrow> (let st' = run fs (map (lower fs) (or_empty exclude_exts)) (or_empty exclude_names) (Some m)
                      (take n (schedule fs file_paths dir_paths)) start
         in process_file fs (map (lower fs) (or_empty exclude_exts)) (or_empty exclude_names) (Some m) q st'
              = st'\<lparr>total_bytes := total_bytes st',
                    formatted_contents := formatted_contents st' @ [format_file_content q []],
                    included_files := included_files st' @ [q]\<rparr>))"
proof -
  let ?ee = "map (lower fs) (or_empty exclude_exts)" and ?en = "or_empty exclude_names"
  let ?st = "run fs ?ee ?en (Some m) (take n (schedule fs file_paths dir_paths)) start"
  have exact: "process_file fs ee en (Some m) p st
          = st\<lparr>total_bytes := m,
               formatted_contents := formatted_contents st @ [format_file_content p content],
               included_files := included_files st @ [p]\<rparr>"
    if "\<not> should_exclude fs ee en p" "\<not> is_binary_file fs p" "read_text fs p = Inr content"
      "total_bytes st + int (length content) = m"
  proof -
    from that(4) have "\<not> exceeds (Some m) (total_bytes st) (int (length content))"
      by (simp add: exceeds_def)
    with that show ?thesis
      by (simp add: process_file_accepted)
  qed
  have empty: "process_file fs ?ee ?en (Some m) q ?st
              = ?st\<lparr>total_bytes := total_bytes ?st,
                    formatted_contents := formatted_contents ?st @ [format_file_content q []],
                    included_files := included_files ?st @ [q]\<rparr>"
    if "0 \<le> m" "\<not> should_exclude fs ?ee ?en q" "\<not> is_binary_file fs q" "read_text fs q = Inr []"
  proof -
    have "\<not> exceeds (Some m) (total_bytes ?st) (int (length ([] :: string)))"
    proof (cases "m = 0")
      case True
      then show ?thesis by (simp add: exceeds_def)
    next
      case False
      with that(1) have "0 < m" by simp
      then have "total_bytes ?st \<le> m" by (rule run_within)
      then show ?thesis by (simp add: exceeds_def)
    qed
    with that show ?thesis
      by (simp add: process_file_accepted)
  qed
  from exact empty show ?thesis
    unfolding Let_def by blast
qed

theorem budget_boundary_witness:
  "included_files (process_file (files_fs [(''a.txt'', ''four''), (''e.txt'', [])]) [] [] (Some 4)
      ''a.txt'' start) = [''a.txt'']
   \<and> total_bytes (run (files_fs [(''a.txt'', ''four''), (''e.txt'', [])]) [] [] (Some 4)
        (take 1 (schedule (files_fs [(''a.txt'', ''four''), (''e.txt'', [])])
                   (Some [''a.txt'', ''e.txt'']) None)) start) = 4
   \<and> included_files (process_file (files_fs [(''a.txt'', ''four''), (''e.txt'', [])]) [] [] (Some 4)
        ''e.txt''
        (run (files_fs [(''a.txt'', ''four''), (''e.txt'', [])]) [] [] (Some 4)
           (take 1 (schedule (files_fs [(''a.txt'', ''four''), (''e.txt'', [])])
                      (Some [''a.txt'', ''e.txt'']) None)) start))
      = [''a.txt'', ''e.txt'']"
proof -
  let ?fs = "files_fs [(''a.txt'', ''four''), (''e.txt'', [])]"
  have h1: "\<not> should_exclude ?fs [] [] ''a.txt'' \<and> \<not> is_binary_file ?fs ''a.txt''
            \<and> read_text ?fs ''a.txt'' = Inr ''four''
            \<and> total_bytes start + int (length ''four'') = 4"
    by (simp add: should_exclude_def is_binary_file_def read_text_def files_fs_def start_def)
  have h2: "(0::int) \<le> 4 \<and> \<not> should_exclude ?fs (map (lower ?fs) (or_empty None)) (or_empty None) ''e.txt''
            \<and> \<not> is_binary_file ?fs ''e.txt'' \<and> read_text ?fs ''e.txt'' = Inr []"
    by (simp add: should_exclude_def is_binary_file_def read_text_def files_fs_def or_empty_def)
  have st: "run ?fs [] [] (Some 4) (take 1 (schedule ?fs (Some [''a.txt'', ''e.txt'']) None)) start
            = \<lparr>formatted_contents = [format_file_content ''a.txt'' ''four''],
               included_files = [''a.txt''], total_bytes = 4, printed = []\<rparr>"
    by (simp add: schedule_def file_action_def exec_def eval_defs)
  show ?thesis
    using budget_boundary [of ?fs "[]" "[]" "''a.txt''" "''four''" start 4 None None "''e.txt''" 1
        "Some [''a.txt'', ''e.txt'']" None] h1 h2 st
    by (simp add: or_empty_def start_def Let_def)
qed

text \<open>
  With \<open>max_bytes = -1\<close> the file of zero bytes is rejected by the budget: the running total
  \<open>0\<close> is already above it.
\<close>

theorem budget_boundary_counterexample:
  "read_text (files_fs [(''e.txt'', [])]) ''e.txt'' = Inr []
   \<and> included_files (collect (files_fs [(''e.txt'', [])]) (Some [''e.txt'']) None None None
        (Some (- 1))) = []
   \<and> printed (collect (files_fs [(''e.txt'', [])]) (Some [''e.txt'']) None None None (Some (- 1)))
      = [''Warning: Skipping e.txt as it would exceed the max bytes limit'']"
  by (simp add: eval_defs)

section \<open>Exclusion\<close>

lemma rfind_bounds: "- 1 \<le> rfind s c \<and> rfind s c < int (length s)"
  by (induction s) (auto simp: Let_def)

lemma rfind_nth: "0 \<le> rfind s c \<Longrightarrow> s ! nat (rfind s c) = c"
proof (induction s)
  case Nil
  then show ?case by simp
next
  case (Cons x xs)
  show ?case
  proof (cases "0 \<le> rfind xs c")
    case True
    with Cons.IH have "xs ! nat (rfind xs c) = c" by simp
    moreover from True have "nat (rfind xs c + 1) = Suc (nat (rfind xs c))" by simp
    ultimately show ?thesis using True by (simp add: Let_def)
  next
    case False
    with Cons.prems show ?thesis
      by (simp add: Let_def split: if_splits)
  qed
qed

lemma rfind_absent: "rfind s c < 0 \<longleftrightarrow> c \<notin> set s"
proof (induction s)
  case Nil
  show ?case by simp
next
  case (Cons x xs)
  with rfind_bounds [of xs c] show ?case
    by (auto simp: Let_def)
qed

lemma rfind_after: "c \<notin> set (drop (nat (rfind s c + 1)) s)"
proof (induction s)
  case Nil
  show ?case by simp
next
  case (Cons x xs)
  show ?case
  proof (cases "0 \<le> rfind xs c")
    case True
    then have "nat (rfind xs c + 1 + 1) = Suc (nat (rfind xs c + 1))" by simp
    with True Cons.IH show ?thesis by (simp add: Let_def)
  next
    case False
    then have "c \<notin> set xs" using rfind_absent [of xs c] by simp
    with False show ?thesis by (simp add: Let_def)
  qed
qed

lemma basename_no_sep: "rfind (basename p) CHR ''/'' = - 1"
proof -
  have "CHR ''/'' \<notin> set (basename p)"
    unfolding basename_def by (rule rfind_after)
  then have "rfind (basename p) CHR ''/'' < 0"
    by (simp add: rfind_absent)
  with rfind_bounds [of "basename p" "CHR ''/''"] show ?thesis
    by simp
qed

lemma splitext_ext_dot:
  "snd (splitext p) = [] \<or> hd (snd (splitext p)) = CHR ''.''"
proof (cases "snd (splitext p) = []")
  case True
  then show ?thesis by simp
next
  case False
  then have ext: "snd (splitext p) = drop (nat (rfind p CHR ''.'')) p"
    and pos: "rfind p CHR ''/'' < rfind p CHR ''.''"
    by (auto simp: splitext_def Let_def split: if_splits)
  from pos rfind_bounds [of p "CHR ''/''"] have nonneg: "0 \<le> rfind p CHR ''.''"
    by simp
  with rfind_bounds [of p "CHR ''.''"] have "nat (rfind p CHR ''.'') < length p"
    by simp
  then have "hd (drop (nat (rfind p CHR ''.'')) p) = p ! nat (rfind p CHR ''.'')"
    by (simp add: hd_drop_conv_nth)
  with nonneg ext show ?thesis
    by (simp add: rfind_nth)
qed

lemma ascii_lower_dot: "hd (ascii_lower (CHR ''.'' # x)) = CHR ''.''"
  by (simp add: ascii_lower_def ascii_lower_char_def)

lemma excluded_not_included:
  assumes "should_exclude fs (map (lower fs) (or_empty ee)) (or_empty en) p"
  shows "p \<notin> set (included_files (collect fs fp dp ee en mb))"
  using included_passes [of p fs fp dp ee en mb] assms
  by (auto simp: passes_def)

lemma should_exclude_iff:
  "should_exclude fs (map (lower fs) exts) names p
     \<longleftrightarrow> lower fs (snd (splitext (basename p))) \<in> lower fs ` set exts \<or> basename p \<in> set names"
  by (simp add: should_exclude_def Let_def)

lemma process_file_cong:
  assumes "\<And>q. should_exclude fs ee en q = should_exclude fs ee' en' q"
  shows "process_file fs ee en mb p st = process_file fs ee' en' mb p st"
  by (simp add: process_file_def assms)

lemma run_cong:
  assumes "\<And>q. should_exclude fs ee en q = should_exclude fs ee' en' q"
  shows "run fs ee en mb as st = run fs ee' en' mb as st"
proof (induction as arbitrary: st)
  case Nil
  show ?case by simp
next
  case (Cons a as)
  have "exec fs ee en mb st a = exec fs ee' en' mb st a"
    by (cases a) (simp_all add: exec_def process_file_cong [OF assms])
  with Cons.IH show ?case by simp
qed

lemma entry_without_dot:
  assumes dot: "\<forall>x. hd (lower fs (CHR ''.'' # x)) = CHR ''.''"
    and e: "hd (lower fs e) \<noteq> CHR ''.''" "lower fs e \<noteq> lower fs []"
  shows "should_exclude fs (map (lower fs) (e # exts)) names q
           = should_exclude fs (map (lower fs) exts) names q"
proof -
  let ?x = "snd (splitext (basename q))"
  have "lower fs ?x \<noteq> lower fs e"
  proof (cases "?x = []")
    case True
    with e(2) show ?thesis by simp
  next
    case False
    with splitext_ext_dot [of "basename q"] have "hd ?x = CHR ''.''"
      by simp
    with False have "?x = CHR ''.'' # tl ?x"
      by (cases ?x) simp_all
    with dot have "hd (lower fs ?x) = CHR ''.''"
      by metis
    with e(1) show ?thesis
      by auto
  qed
  then show ?thesis
    by (auto simp: should_exclude_def Let_def)
qed

text \<open>
  C3. An entry of the excluded extensions is compared as given, lower-cased, with no leading
  \<^verbatim>\<open>'.'\<close> added: a file is excluded by its extension exactly when its lower-cased
  extension is the lower-cased form of an entry, and a file whose extension equals an entry
  up to letter case is then in no result. Lower-casing keeps a leading \<^verbatim>\<open>'.'\<close>; so an
  entry whose lower-cased form is not that of the empty string and does not begin with
  \<^verbatim>\<open>'.'\<close> excludes nothing: the collection with that entry is the collection without it.
\<close>

theorem extension_match_ignores_case:
  "(should_exclude fs (map (lower fs) (or_empty exclude_exts)) (or_empty exclude_names) p
      \<longleftrightarrow> lower fs (snd (splitext (basename p))) \<in> lower fs ` set (or_empty exclude_exts)
          \<or> basename p \<in> set (or_empty exclude_names))
   \<and> (e \<in> set (or_empty exclude_exts) \<and> lower fs (snd (splitext (basename p))) = lower fs e
      \<longrightarrow> should_exclude fs (map (lower fs) (or_empty exclude_exts)) (or_empty exclude_names) p
          \<and> process_file fs (map (lower fs) (or_empty exclude_exts)) (or_empty exclude_names)
                max_bytes p st = st
          \<and> p \<notin> set (included_files
                        (collect fs file_paths dir_paths exclude_exts exclude_names max_bytes)))
   \<and> ((\<forall>x. hd (lower fs (CHR ''.'' # x)) = CHR ''.'')
        \<and> hd (lower fs bare) \<noteq> CHR ''.'' \<and> lower fs bare \<noteq> lower fs []
      \<longrightarrow> should_exclude fs (map (lower fs) (bare # exts)) (or_empty exclude_names) q
            = should_exclude fs (map (lower fs) exts) (or_empty exclude_names) q
          \<and> collect fs file_paths dir_paths (Some (bare # exts)) exclude_names max_bytes
              = collect fs file_paths dir_paths (Some exts) exclude_names max_bytes)"
proof -
  let ?ee = "map (lower fs) (or_empty exclude_exts)" and ?en = "or_empty exclude_names"
  have iff: "should_exclude fs ?ee ?en p
      \<longleftrightarrow> lower fs (snd (splitext (basename p))) \<in> lower fs ` set (or_empty exclude_exts)
          \<or> basename p \<in> set ?en"
    by (rule should_exclude_iff)
  have match: "should_exclude fs ?ee ?en p
        \<and> process_file fs ?ee ?en max_bytes p st = st
        \<and> p \<notin> set (included_files
                      (collect fs file_paths dir_paths exclude_exts exclude_names max_bytes))"
    if "e \<in> set (or_empty exclude_exts)" "lower fs (snd (splitext (basename p))) = lower fs e"
  proof -
    from that have "should_exclude fs ?ee ?en p"
      by (auto simp: should_exclude_iff)
    then show ?thesis
      by (simp add: process_file_excluded excluded_not_included)
  qed
  have inert: "should_exclude fs (map (lower fs) (bare # exts)) ?en q
            = should_exclude fs (map (lower fs) exts) ?en q
          \<and> collect fs file_paths dir_paths (Some (bare # exts)) exclude_names max_bytes
              = collect fs file_paths dir_paths (Some exts) exclude_names max_bytes"
    if dot: "\<forall>x. hd (lower fs (CHR ''.'' # x)) = CHR ''.''"
      and b: "hd (lower fs bare) \<noteq> CHR ''.''" "lower fs bare \<noteq> lower fs []"
  proof -
    have same: "should_exclude fs (map (lower fs) (bare # exts)) ?en r
            = should_exclude fs (map (lower fs) exts) ?en r" for r
      using dot b by (rule entry_without_dot)
    have "run fs (map (lower fs) (bare # exts)) ?en max_bytes (schedule fs file_paths dir_paths) start
            = run fs (map (lower fs) exts) ?en max_bytes (schedule fs file_paths dir_paths) start"
      by (rule run_cong) (rule same)
    then have "collect fs file_paths dir_paths (Some (bare # exts)) exclude_names max_bytes
              = collect fs file_paths dir_paths (Some exts) exclude_names max_bytes"
      by (simp add: collect_run or_empty_def)
    with same show ?thesis
      by simp
  qed
  from iff match inert show ?thesis
    by blast
qed

theorem extension_match_ignores_case_witness:
  "''.PNG'' \<in> set (or_empty (Some [''.PNG'']))
   \<and> lower (files_fs [(''img/pic.png'', ''x''), (''a.png'', ''y'')])
        (snd (splitext (basename ''img/pic.png'')))
      = lower (files_fs [(''img/pic.png'', ''x''), (''a.png'', ''y'')]) ''.PNG''
   \<and> ''img/pic.png'' \<notin> set (included_files
        (collect (files_fs [(''img/pic.png'', ''x''), (''a.png'', ''y'')])
           (Some [''img/pic.png'']) None (Some [''.PNG'']) None None))
   \<and> (\<forall>x. hd (lower (files_fs [(''img/pic.png'', ''x''), (''a.png'', ''y'')]) (CHR ''.'' # x))
            = CHR ''.'')
   \<and> hd (lower (files_fs [(''img/pic.png'', ''x''), (''a.png'', ''y'')]) ''png'') \<noteq> CHR ''.''
   \<and> lower (files_fs [(''img/pic.png'', ''x''), (''a.png'', ''y'')]) ''png''
       \<noteq> lower (files_fs [(''img/pic.png'', ''x''), (''a.png'', ''y'')]) []
   \<and> collect (files_fs [(''img/pic.png'', ''x''), (''a.png'', ''y'')])
        (Some [''img/pic.png'', ''a.png'']) None (Some [''png'']) None None
      = collect (files_fs [(''img/pic.png'', ''x''), (''a.png'', ''y'')])
        (Some [''img/pic.png'', ''a.png'']) None (Some []) None None
   \<and> included_files (collect (files_fs [(''img/pic.png'', ''x''), (''a.png'', ''y'')])
        (Some [''img/pic.png'', ''a.png'']) None (Some [''png'']) None None)
      = [''img/pic.png'', ''a.png'']"
proof -
  let ?fs = "files_fs [(''img/pic.png'', ''x''), (''a.png'', ''y'')]"
  have low: "lower ?fs = ascii_lower"
    by (simp add: files_fs_def)
  have h1: "''.PNG'' \<in> set (or_empty (Some [''.PNG'']))
            \<and> lower ?fs (snd (splitext (basename ''img/pic.png''))) = lower ?fs ''.PNG''"
    by (simp add: low or_empty_def basename_def splitext_def ascii_lower_def ascii_lower_char_def)
  have h2: "(\<forall>x. hd (lower ?fs (CHR ''.'' # x)) = CHR ''.'')
            \<and> hd (lower ?fs ''png'') \<noteq> CHR ''.'' \<and> lower ?fs ''png'' \<noteq> lower ?fs []"
    by (simp add: low ascii_lower_dot) (simp add: ascii_lower_def ascii_lower_char_def)
  have plain: "included_files (collect ?fs (Some [''img/pic.png'', ''a.png'']) None (Some []) None None)
                 = [''img/pic.png'', ''a.png'']"
    by (simp add: eval_defs)
  note t = extension_match_ignores_case
        [of ?fs "Some [''.PNG'']" None "''img/pic.png''" "''.PNG''" None start "Some [''img/pic.png'']" None
            "''png''" "[]" "''a.png''"]
      extension_match_ignores_case
        [of ?fs "Some [''.PNG'']" None "''img/pic.png''" "''.PNG''" None start
            "Some [''img/pic.png'', ''a.png'']" None "''png''" "[]" "''a.png''"]
  from t(1) h1 have absent: "''img/pic.png'' \<notin> set (included_files
        (collect ?fs (Some [''img/pic.png'']) None (Some [''.PNG'']) None None))"
    by blast
  from t(2) h2 have same: "collect ?fs (Some [''img/pic.png'', ''a.png'']) None (Some [''png'']) None None
      = collect ?fs (Some [''img/pic.png'', ''a.png'']) None (Some []) None None"
    by blast
  from h1 h2 absent same plain show ?thesis
    by simp
qed

text \<open>The entry \<^verbatim>\<open>png\<close> does not exclude \<^verbatim>\<open>pic.png\<close>, whose extension is \<^verbatim>\<open>.png\<close>.\<close>

theorem extension_entry_counterexample:
  "snd (splitext (basename ''pic.png'')) = ''.png''
   \<and> included_files (collect (files_fs [(''pic.png'', ''x'')]) (Some [''pic.png'']) None
        (Some [''png'']) None None) = [''pic.png'']"
  by (simp add: eval_defs)

text \<open>
  C4. A file is excluded by its extension when the lower-cased extension that
  \<^verbatim>\<open>os.path.splitext\<close> gives for its base name is among the lower-cased entries: that is
  the substring of the base name from its last \<^verbatim>\<open>'.'\<close> inclusive, and the empty string
  when the name has no \<^verbatim>\<open>'.'\<close> or has only \<^verbatim>\<open>'.'\<close> characters before the last one. It
  is excluded by its name when the base name is an entry of the excluded names. Such a file
  is in no result and the call for it changes nothing, whatever its bytes.
\<close>

theorem excluded_file_absent:
  "(lower fs (snd (splitext (basename p))) \<in> set (map (lower fs) (or_empty exclude_exts))
      \<or> basename p \<in> set (or_empty exclude_names)
    \<longrightarrow> p \<notin> set (included_files
                    (collect fs file_paths dir_paths exclude_exts exclude_names max_bytes))
        \<and> process_file fs (map (lower fs) (or_empty exclude_exts)) (or_empty exclude_names)
              max_bytes p st = st)
   \<and> snd (splitext (basename p))
       = (if dropWhile (\<lambda>c. c = CHR ''.'') (take (nat (rfind (basename p) CHR ''.'')) (basename p)) = []
          then [] else spec_extension (basename p))"
proof -
  let ?ee = "map (lower fs) (or_empty exclude_exts)" and ?en = "or_empty exclude_names"
  have absent: "p \<notin> set (included_files
                    (collect fs file_paths dir_paths exclude_exts exclude_names max_bytes))
        \<and> process_file fs ?ee ?en max_bytes p st = st"
    if "lower fs (snd (splitext (basename p))) \<in> set ?ee \<or> basename p \<in> set ?en"
  proof -
    from that have "should_exclude fs ?ee ?en p"
      by (simp add: should_exclude_def Let_def)
    then show ?thesis
      by (simp add: process_file_excluded excluded_not_included)
  qed
  have ext: "snd (splitext (basename p))
       = (if dropWhile (\<lambda>c. c = CHR ''.'') (take (nat (rfind (basename p) CHR ''.'')) (basename p)) = []
          then [] else spec_extension (basename p))"
  proof (cases "rfind (basename p) CHR ''.'' < 0")
    case True
    then show ?thesis
      by (simp add: splitext_def spec_extension_def basename_no_sep Let_def)
  next
    case False
    then have "- 1 < rfind (basename p) CHR ''.''" by simp
    with False show ?thesis
      by (simp add: splitext_def spec_extension_def basename_no_sep Let_def)
  qed
  from absent ext show ?thesis
    by blast
qed

theorem excluded_file_absent_witness:
  "lower (files_fs [(''src/Logo.PNG'', ''text''), (''secret.txt'', ''key'')])
       (snd (splitext (basename ''src/Logo.PNG'')))
     \<in> set (map (lower (files_fs [(''src/Logo.PNG'', ''text''), (''secret.txt'', ''key'')]))
              (or_empty (Some [''.png''])))
   \<and> ''src/Logo.PNG'' \<notin> set (included_files
        (collect (files_fs [(''src/Logo.PNG'', ''text''), (''secret.txt'', ''key'')])
           (Some [''src/Logo.PNG'', ''secret.txt'']) None (Some [''.png'']) (Some [''secret.txt'']) None))
   \<and> basename ''secret.txt'' \<in> set (or_empty (Some [''secret.txt'']))
   \<and> ''secret.txt'' \<notin> set (included_files
        (collect (files_fs [(''src/Logo.PNG'', ''text''), (''secret.txt'', ''key'')])
           (Some [''src/Logo.PNG'', ''secret.txt'']) None (Some [''.png'']) (Some [''secret.txt'']) None))"
proof -
  let ?fs = "files_fs [(''src/Logo.PNG'', ''text''), (''secret.txt'', ''key'')]"
  have low: "lower ?fs = ascii_lower"
    by (simp add: files_fs_def)
  have h1: "lower ?fs (snd (splitext (basename ''src/Logo.PNG'')))
              \<in> set (map (lower ?fs) (or_empty (Some [''.png''])))"
    by (simp add: low or_empty_def basename_def splitext_def ascii_lower_def ascii_lower_char_def)
  have h2: "basename ''secret.txt'' \<in> set (or_empty (Some [''secret.txt'']))"
    by (simp add: or_empty_def basename_def)
  from excluded_file_absent [of ?fs "''src/Logo.PNG''" "Some [''.png'']" "Some [''secret.txt'']"
        "Some [''src/Logo.PNG'', ''secret.txt'']" None None start] h1
  have a: "''src/Logo.PNG'' \<notin> set (included_files
        (collect ?fs (Some [''src/Logo.PNG'', ''secret.txt'']) None (Some [''.png''])
           (Some [''secret.txt'']) None))"
    by blast
  from excluded_file_absent [of ?fs "''secret.txt''" "Some [''.png'']" "Some [''secret.txt'']"
        "Some [''src/Logo.PNG'', ''secret.txt'']" None None start] h2
  have b: "''secret.txt'' \<notin> set (included_files
        (collect ?fs (Some [''src/Logo.PNG'', ''secret.txt'']) None (Some [''.png''])
           (Some [''secret.txt'']) None))"
    by blast
  from h1 h2 a b show ?thesis
    by simp
qed

text \<open>
  The substring of \<^verbatim>\<open>.env\<close> from its last \<^verbatim>\<open>'.'\<close> is \<^verbatim>\<open>.env\<close>, an excluded
  extension here, and the file is included: its extension is empty for the code.
\<close>

theorem dotfile_extension_counterexample:
  "lower (files_fs [(''.env'', ''KEY=1'')]) (spec_extension (basename ''.env''))
     \<in> set (map (lower (files_fs [(''.env'', ''KEY=1'')])) [''.env''])
   \<and> snd (splitext (basename ''.env'')) = []
   \<and> included_files (collect (files_fs [(''.env'', ''KEY=1'')]) (Some [''.env'']) None
        (Some [''.env'']) None None) = [''.env'']"
  by (simp add: spec_extension_def eval_defs files_fs_def)

end
